theory Spec2Isabelle
  imports Main "HOL-Library.Sublist"
begin

section \<open>Python strings and exceptions\<close>

text \<open>
  A Python \<open>str\<close> is a sequence of Unicode code points, so it is modelled as a list of
  natural numbers (one per code point). ASCII literals of the source are written with
  \<open>ustr\<close>, which maps every character of an Isabelle string to its code.
\<close>

type_synonym ustring = "nat list"

definition ustr :: "string \<Rightarrow> ustring" where
  "ustr s = map of_char s"

text \<open>
  Exceptions are values. The constructors are the exception classes that the two source
  files raise themselves (\<open>ValueError\<close>) or that the library calls they make raise; each
  carries its message, which is what \<open>str(e)\<close> prints. An \<open>HTTPError\<close> also carries the
  text of the response (\<open>e.response.text\<close>).
\<close>

datatype exn =
    ValueError ustring
  | TypeError ustring
  | FileExistsError ustring
  | IsADirectoryError ustring
  | NoTranscriptFound ustring
  | HTTPError ustring ustring
  | LibraryError ustring

fun str_of_exn :: "exn \<Rightarrow> ustring" where
  "str_of_exn (ValueError m) = m"
| "str_of_exn (TypeError m) = m"
| "str_of_exn (FileExistsError m) = m"
| "str_of_exn (IsADirectoryError m) = m"
| "str_of_exn (NoTranscriptFound m) = m"
| "str_of_exn (HTTPError m body) = m"
| "str_of_exn (LibraryError m) = m"

text \<open>\<open>hasattr(e, 'response')\<close> and \<open>e.response.text\<close>.\<close>

fun response_text :: "exn \<Rightarrow> ustring option" where
  "response_text (HTTPError m body) = Some body"
| "response_text e = None"

section \<open>\<open>TranscriptFetcher.get_video_id\<close>\<close>

text \<open>
  The character class \<open>[0-9A-Za-z_-]\<close>: the digits (48 to 57), the upper case letters
  (65 to 90), the lower case letters (97 to 122), the underscore (95) and the hyphen (45).
\<close>

definition id_char :: "nat \<Rightarrow> bool" where
  "id_char c \<longleftrightarrow>
     (48 \<le> c \<and> c \<le> 57) \<or> (65 \<le> c \<and> c \<le> 90) \<or> (97 \<le> c \<and> c \<le> 122) \<or> c = 95 \<or> c = 45"

text \<open>The group \<open>([0-9A-Za-z_-]{11})\<close> read at the head of \<open>s\<close>.\<close>

definition id11 :: "ustring \<Rightarrow> ustring option" where
  "id11 s = (if 11 \<le> length s \<and> list_all id_char (take 11 s) then Some (take 11 s) else None)"

text \<open>
  The first pattern, \<open>(?:v=|/)([0-9A-Za-z_-]{11}).*\<close>, anchored at the head of \<open>s\<close>;
  the result is group 1. The two alternatives start with different characters, so
  backtracking from \<open>v=\<close> to \<open>/\<close> never succeeds, and the trailing \<open>.*\<close> matches the
  empty string if nothing else.
\<close>

definition pattern1_at :: "ustring \<Rightarrow> ustring option" where
  "pattern1_at s =
     (if prefix (ustr ''v='') s then id11 (drop 2 s)
      else if prefix (ustr ''/'') s then id11 (drop 1 s)
      else None)"

text \<open>The second pattern, \<open>youtu\.be/([0-9A-Za-z_-]{11})\<close>, anchored at the head of \<open>s\<close>.\<close>

definition pattern2_at :: "ustring \<Rightarrow> ustring option" where
  "pattern2_at s =
     (if prefix (ustr ''youtu.be/'') s then id11 (drop 9 s) else None)"

text \<open>
  \<open>re.search\<close>: the pattern is tried at every position from left to right (the end of
  the string included), and the leftmost match wins.
\<close>

fun re_search :: "(ustring \<Rightarrow> ustring option) \<Rightarrow> ustring \<Rightarrow> ustring option" where
  "re_search m [] = m []"
| "re_search m (c # cs) = (case m (c # cs) of Some g \<Rightarrow> Some g | None \<Rightarrow> re_search m cs)"

definition patterns :: "(ustring \<Rightarrow> ustring option) list" where
  "patterns = [pattern1_at, pattern2_at]"

text \<open>The loop over \<open>patterns\<close>, and the \<open>raise\<close> after it.\<close>

fun first_match :: "(ustring \<Rightarrow> ustring option) list \<Rightarrow> ustring \<Rightarrow> exn + ustring" where
  "first_match [] url = Inl (ValueError (ustr ''Invalid YouTube URL format''))"
| "first_match (p # ps) url =
     (case re_search p url of Some g \<Rightarrow> Inr g | None \<Rightarrow> first_match ps url)"

definition get_video_id :: "ustring \<Rightarrow> exn + ustring" where
  "get_video_id url = first_match patterns url"


section \<open>The string methods the source uses\<close>

definition newline :: ustring where
  "newline = [10]"

text \<open>The literal \<open>'\<bullet> '\<close> of the source: the bullet U+2022 and a space.\<close>

definition bullet :: nat where
  "bullet = 8226"

definition bullet_space :: ustring where
  "bullet_space = [bullet, 32]"

definition startswith :: "ustring \<Rightarrow> ustring \<Rightarrow> bool" where
  "startswith s p = prefix p s"

text \<open>
  \<open>str.replace(old, new)\<close>: every occurrence of \<open>old\<close>, found from left to right without
  overlap, is replaced. For an empty \<open>old\<close> Python puts \<open>new\<close> in front of every character
  and at the end.
\<close>

fun replace_scan :: "ustring \<Rightarrow> ustring \<Rightarrow> ustring \<Rightarrow> ustring" where
  "replace_scan [] old new = []"
| "replace_scan (c # cs) old new =
     (if old \<noteq> [] \<and> prefix old (c # cs)
      then new @ replace_scan (drop (length old) (c # cs)) old new
      else c # replace_scan cs old new)"

definition replace :: "ustring \<Rightarrow> ustring \<Rightarrow> ustring \<Rightarrow> ustring" where
  "replace s old new =
     (if old = [] then new @ concat (map (\<lambda>c. c # new) s) else replace_scan s old new)"

text \<open>
  The characters \<open>str.strip()\<close> removes: the code points for which \<open>str.isspace\<close> holds
  (tab to carriage return, the separators 28 to 31, the space, U+0085, U+00A0, U+1680,
  U+2000 to U+200A, U+2028, U+2029, U+202F, U+205F and U+3000).
\<close>

definition is_space :: "nat \<Rightarrow> bool" where
  "is_space c \<longleftrightarrow>
     (9 \<le> c \<and> c \<le> 13) \<or> (28 \<le> c \<and> c \<le> 32) \<or> c = 133 \<or> c = 160 \<or> c = 5760 \<or>
     (8192 \<le> c \<and> c \<le> 8202) \<or> c = 8232 \<or> c = 8233 \<or> c = 8239 \<or> c = 8287 \<or> c = 12288"

text \<open>Stripping removes the characters from both ends.\<close>

definition strip_where :: "(nat \<Rightarrow> bool) \<Rightarrow> ustring \<Rightarrow> ustring" where
  "strip_where P s = rev (dropWhile P (rev (dropWhile P s)))"

definition strip :: "ustring \<Rightarrow> ustring" where
  "strip s = strip_where is_space s"

definition strip_chars :: "ustring \<Rightarrow> ustring \<Rightarrow> ustring" where
  "strip_chars s chars = strip_where (\<lambda>c. c \<in> set chars) s"

text \<open>
  \<open>str.split(sep)\<close> for a separator that is not empty (the source passes the literals
  \<open>'\n\n'\<close> and \<open>'\n'\<close>; Python raises \<open>ValueError\<close> for an empty one): the string is cut
  at every occurrence of \<open>sep\<close>, found from left to right without overlap. \<open>cur\<close> holds the
  characters of the current piece, last one first.
\<close>

fun split_scan :: "ustring \<Rightarrow> ustring \<Rightarrow> ustring \<Rightarrow> ustring list" where
  "split_scan sep cur [] = [rev cur]"
| "split_scan sep cur (c # cs) =
     (if sep \<noteq> [] \<and> prefix sep (c # cs)
      then rev cur # split_scan sep [] (drop (length sep) (c # cs))
      else split_scan sep (c # cur) cs)"

definition split_str :: "ustring \<Rightarrow> ustring \<Rightarrow> ustring list" where
  "split_str s sep = split_scan sep [] s"

text \<open>\<open>sep.join(xs)\<close>.\<close>

fun join :: "ustring \<Rightarrow> ustring list \<Rightarrow> ustring" where
  "join sep [] = []"
| "join sep [x] = x"
| "join sep (x # y # ys) = x @ sep @ join sep (y # ys)"

text \<open>\<open>needle in s\<close> for strings.\<close>

definition contains :: "ustring \<Rightarrow> ustring \<Rightarrow> bool" where
  "contains s needle = list_ex (\<lambda>k. prefix needle (drop k s)) [0..<Suc (length s)]"

section \<open>\<open>TranscriptFetcher.summarize_text\<close>: parsing the reply\<close>

text \<open>
  \<open>response_dict\<close> has at most the four keys \<open>'abstract'\<close>, \<open>'key_concepts'\<close>, \<open>'category'\<close>
  and \<open>'summary'\<close>; three hold a string and \<open>'key_concepts'\<close> a list of strings. It is a
  record with one optional field per key: \<open>None\<close> is a key that is not in the dictionary.
\<close>

record analysis =
  abstract :: "ustring option"
  key_concepts :: "ustring list option"
  category :: "ustring option"
  summary :: "ustring option"

definition empty_dict :: analysis where
  "empty_dict = \<lparr>abstract = None, key_concepts = None, category = None, summary = None\<rparr>"

text \<open>
  The list comprehension of the key-concepts branch:
  \<open>[line.strip('\<bullet> ').strip() for line in section.split('\n')[1:] if line.strip()]\<close>.
\<close>

definition concepts_of :: "ustring \<Rightarrow> ustring list" where
  "concepts_of sec =
     map (\<lambda>line. strip (strip_chars line bullet_space))
       (filter (\<lambda>line. strip line \<noteq> []) (tl (split_str sec newline)))"

text \<open>One round of the loop over the sections: the \<open>if\<close>/\<open>elif\<close> chain.\<close>

definition parse_section :: "analysis \<Rightarrow> ustring \<Rightarrow> analysis" where
  "parse_section d sec =
     (if startswith sec (ustr ''ABSTRACT:'')
      then d\<lparr>abstract := Some (strip (replace sec (ustr ''ABSTRACT:'') []))\<rparr>
      else if startswith sec (ustr ''KEY CONCEPTS:'')
      then d\<lparr>key_concepts := Some (concepts_of sec)\<rparr>
      else if startswith sec (ustr ''CATEGORY:'')
      then d\<lparr>category := Some (strip (replace sec (ustr ''CATEGORY:'') []))\<rparr>
      else if startswith sec (ustr ''SUMMARY:'')
      then d\<lparr>summary := Some (strip (replace sec (ustr ''SUMMARY:'') []))\<rparr>
      else d)"

text \<open>Lines 159 to 173: the split of the reply and the loop.\<close>

definition parse_content :: "ustring \<Rightarrow> analysis" where
  "parse_content content = foldl parse_section empty_dict (split_str content (newline @ newline))"

text \<open>Whether a section starts with one of the four labels.\<close>

definition labelled :: "ustring \<Rightarrow> bool" where
  "labelled sec \<longleftrightarrow>
     startswith sec (ustr ''ABSTRACT:'') \<or> startswith sec (ustr ''KEY CONCEPTS:'') \<or>
     startswith sec (ustr ''CATEGORY:'') \<or> startswith sec (ustr ''SUMMARY:'')"

section \<open>The world the caption pipeline runs in\<close>

text \<open>
  The state the source reads and changes: the process environment (after \<open>load_dotenv\<close>),
  the regular files and the directories of the file system by path, the number of network
  requests made so far, and what has been printed (one entry per \<open>print\<close>).
\<close>

record world =
  environ :: "ustring \<rightharpoonup> ustring"
  files :: "ustring \<rightharpoonup> ustring"
  dirs :: "ustring set"
  net_calls :: nat
  stdout :: "ustring list"

definition print :: "ustring \<Rightarrow> world \<Rightarrow> world" where
  "print line w = w\<lparr>stdout := stdout w @ [line]\<rparr>"


text \<open>
  \<open>with open(path, "w") as f\<close> followed by writes of strings: the file holds what was
  written; opening a directory raises \<open>IsADirectoryError\<close>.
\<close>

definition write_file :: "ustring \<Rightarrow> ustring \<Rightarrow> world \<Rightarrow> exn + world" where
  "write_file path text w =
     (if path \<in> dirs w then Inl (IsADirectoryError path)
      else Inr (w\<lparr>files := (files w)(path \<mapsto> text)\<rparr>))"


section \<open>The caption service and the completion service\<close>

text \<open>
  A caption track (the library's \<open>Transcript\<close>) and the list of tracks of a video (the
  library's \<open>TranscriptList\<close>, which keeps the manually created and the generated tracks
  in two dictionaries keyed by language code).
\<close>

record track =
  language_code :: ustring
  is_generated :: bool

record transcript_list =
  manually_created :: "ustring \<rightharpoonup> track"
  generated :: "ustring \<rightharpoonup> track"

text \<open>
  The three lookups of the library's \<open>TranscriptList\<close>. Each takes one required
  parameter, the language codes in descending priority, and returns the track of the
  first code that one of its dictionaries holds; it raises \<open>NoTranscriptFound\<close> when no
  code is found. \<open>find_transcript\<close> looks at the manually created tracks before the
  generated ones, for each code. The argument is optional here because the source calls
  two of them without it: as for every Python function, the call then raises \<open>TypeError\<close>.
\<close>

fun lookup_dicts :: "ustring \<Rightarrow> (ustring \<rightharpoonup> track) list \<Rightarrow> track option" where
  "lookup_dicts code [] = None"
| "lookup_dicts code (d # ds) =
     (case d code of Some t \<Rightarrow> Some t | None \<Rightarrow> lookup_dicts code ds)"

fun find_in_dicts :: "ustring list \<Rightarrow> (ustring \<rightharpoonup> track) list \<Rightarrow> exn + track" where
  "find_in_dicts [] ds = Inl (NoTranscriptFound (ustr ''No transcripts were found''))"
| "find_in_dicts (code # codes) ds =
     (case lookup_dicts code ds of Some t \<Rightarrow> Inr t | None \<Rightarrow> find_in_dicts codes ds)"

definition missing_argument :: exn where
  "missing_argument = TypeError (ustr ''missing 1 required positional argument'')"

definition find_manually_created_transcript ::
    "transcript_list \<Rightarrow> ustring list option \<Rightarrow> exn + track" where
  "find_manually_created_transcript tracks language_codes =
     (case language_codes of
        None \<Rightarrow> Inl missing_argument
      | Some codes \<Rightarrow> find_in_dicts codes [manually_created tracks])"

definition find_generated_transcript ::
    "transcript_list \<Rightarrow> ustring list option \<Rightarrow> exn + track" where
  "find_generated_transcript tracks language_codes =
     (case language_codes of
        None \<Rightarrow> Inl missing_argument
      | Some codes \<Rightarrow> find_in_dicts codes [generated tracks])"

definition find_transcript :: "transcript_list \<Rightarrow> ustring list option \<Rightarrow> exn + track" where
  "find_transcript tracks language_codes =
     (case language_codes of
        None \<Rightarrow> Inl missing_argument
      | Some codes \<Rightarrow> find_in_dicts codes [manually_created tracks, generated tracks])"

text \<open>
  What the remote services answer is a parameter of the model: the track list of a
  video, the cues of a track (their texts), and the reply of the completion endpoint to
  a transcript in a language (the outcome of lines 149 to 157: the request, the check
  of the status and the reading of \<open>choices[0].message.content\<close>, a string; anything
  else is an exception).
\<close>

record services =
  list_transcripts :: "ustring \<Rightarrow> exn + transcript_list"
  fetch :: "track \<Rightarrow> exn + ustring list"
  chat_completion :: "ustring \<Rightarrow> ustring \<Rightarrow> exn + ustring"


section \<open>\<open>TranscriptFetcher\<close>\<close>



text \<open>
  The choice of the track in \<open>fetch_transcript\<close> (lines 57 to 66): two nested \<open>try\<close>
  blocks whose bare \<open>except\<close> catches every exception.
\<close>

definition language_preference :: "ustring list" where
  "language_preference = [ustr ''en'', ustr ''ar'', ustr ''es'', ustr ''fr'', ustr ''de'', ustr ''it'']"

definition select_transcript :: "transcript_list \<Rightarrow> exn + track" where
  "select_transcript tracks =
     (case find_manually_created_transcript tracks None of
        Inr t \<Rightarrow> Inr t
      | Inl e1 \<Rightarrow>
          (case find_generated_transcript tracks None of
             Inr t \<Rightarrow> Inr t
           | Inl e2 \<Rightarrow> find_transcript tracks (Some language_preference)))"



text \<open>
  \<open>summarize_text\<close>: one request to the completion endpoint; the reply is parsed, and
  every exception is caught, printed (with the text of the response when it has one)
  and turned into \<open>None\<close>.
\<close>

definition summarize_text ::
    "services \<Rightarrow> ustring \<Rightarrow> ustring \<Rightarrow> world \<Rightarrow> analysis option \<times> world" where
  "summarize_text sv text language w =
     (let w1 = w\<lparr>net_calls := Suc (net_calls w)\<rparr>
      in case chat_completion sv text language of
           Inr content \<Rightarrow> (Some (parse_content content), w1)
         | Inl e \<Rightarrow>
             let w2 = print (ustr ''Error in summarization: '' @ str_of_exn e) w1
             in (None,
                 case response_text e of
                   Some body \<Rightarrow> print (ustr ''API Response: '' @ body) w2
                 | None \<Rightarrow> w2))"

text \<open>\<open>summary_data.get(key, 'Not available')\<close>.\<close>

definition not_available :: ustring where
  "not_available = ustr ''Not available''"

definition get_or :: "'a option \<Rightarrow> 'a \<Rightarrow> 'a" where
  "get_or entry fallback = (case entry of Some v \<Rightarrow> v | None \<Rightarrow> fallback)"

text \<open>The fixed layout of the analysis file around its four blocks.\<close>

definition layout :: "ustring \<Rightarrow> ustring \<Rightarrow> ustring \<Rightarrow> ustring \<Rightarrow> ustring \<Rightarrow> ustring" where
  "layout language a k c s =
     ustr ''=== TRANSCRIPT ANALYSIS (Language: '' @ language @ ustr '') ==='' @ newline @ newline
     @ ustr ''ABSTRACT:'' @ newline @ a
     @ newline @ newline @ ustr ''KEY CONCEPTS:'' @ newline @ k
     @ newline @ ustr ''CATEGORY:'' @ newline @ c @ newline
     @ newline @ ustr ''DETAILED SUMMARY:'' @ newline @ s"

text \<open>What lines 192 to 200 write, in order.\<close>

definition analysis_text :: "ustring \<Rightarrow> analysis \<Rightarrow> ustring" where
  "analysis_text language d =
     layout language
       (get_or (abstract d) not_available)
       (concat (map (\<lambda>concept. bullet_space @ concept @ newline) (get_or (key_concepts d) [])))
       (get_or (category d) not_available)
       (get_or (summary d) not_available)"

text \<open>The lines printed after the file is written (lines 202 to 209).\<close>

definition print_results :: "analysis \<Rightarrow> world \<Rightarrow> world" where
  "print_results d w =
     print (newline @ ustr ''Detailed summary has been saved to the output file.'')
      (print (newline @ ustr ''Category: '' @ get_or (category d) not_available)
        (foldl (\<lambda>v concept. print (bullet_space @ concept) v)
          (print (newline @ ustr ''Key Concepts:'')
            (print (get_or (abstract d) not_available)
              (print (newline @ ustr ''Abstract:'')
                (print (newline @ ustr ''Analysis Results:'') w))))
          (get_or (key_concepts d) [])))"

text \<open>
  \<open>process_transcript\<close>. \<open>if summary_data:\<close> holds for a dictionary with at least one key:
  \<open>None\<close> and the empty dictionary are both false.
\<close>

definition process_transcript ::
    "services \<Rightarrow> ustring \<times> ustring \<Rightarrow> ustring \<Rightarrow> world \<Rightarrow> world" where
  "process_transcript sv transcript_data summary_path w =
     (let (transcript, language) = transcript_data;
          w1 = print (newline @ ustr ''Generating summary using Deepseek AI...'')
                 (print (newline @ ustr ''Detected language: '' @ language) w);
          (summary_data, w2) = summarize_text sv transcript language w1
      in case summary_data of
           None \<Rightarrow> print (ustr ''Failed to generate summary.'') w2
         | Some d \<Rightarrow>
             if d = empty_dict then print (ustr ''Failed to generate summary.'') w2
             else (case write_file summary_path (analysis_text language d) w2 of
                     Inl e \<Rightarrow> print (ustr ''Error saving summary: '' @ str_of_exn e) w2
                   | Inr w3 \<Rightarrow> print_results d w3))"


section \<open>\<open>VideoDownloader.download_audio\<close>\<close>

text \<open>
  A stream as the download library describes it. \<open>abr\<close> and \<open>resolution\<close> are strings such
  as \<open>'128kbps'\<close> and \<open>'360p'\<close>, or \<open>None\<close>; \<open>order_by\<close> sorts by the integer that their digits
  spell, and that integer is what the model keeps. A progressive stream carries audio
  and video; any other stream carries what its type says.
\<close>

datatype media = Audio | Video

record stream =
  itag :: nat
  is_progressive :: bool
  media_type :: media
  abr :: "nat option"
  resolution :: "nat option"

definition includes_audio_track :: "stream \<Rightarrow> bool" where
  "includes_audio_track s \<longleftrightarrow> is_progressive s \<or> media_type s = Audio"

definition includes_video_track :: "stream \<Rightarrow> bool" where
  "includes_video_track s \<longleftrightarrow> is_progressive s \<or> media_type s = Video"

text \<open>The test of \<open>filter(only_audio=True)\<close>; \<open>filter(progressive=True)\<close> tests \<open>is_progressive\<close>.\<close>

definition only_audio :: "stream \<Rightarrow> bool" where
  "only_audio s \<longleftrightarrow> includes_audio_track s \<and> \<not> includes_video_track s"

text \<open>
  \<open>order_by(attribute)\<close> drops the streams whose attribute is \<open>None\<close> and sorts the others
  in ascending order, keeping the order of equal ones; \<open>desc()\<close> reverses the query;
  \<open>first()\<close> is its first stream, or \<open>None\<close> for an empty query.
\<close>

definition order_by :: "(stream \<Rightarrow> nat option) \<Rightarrow> stream list \<Rightarrow> stream list" where
  "order_by attribute q =
     sort_key (\<lambda>s. the (attribute s)) (filter (\<lambda>s. attribute s \<noteq> None) q)"

definition desc :: "stream list \<Rightarrow> stream list" where
  "desc q = rev q"

definition first :: "stream list \<Rightarrow> stream option" where
  "first q = (case q of [] \<Rightarrow> None | s # rest \<Rightarrow> Some s)"

text \<open>
  The three attempts inside the \<open>try\<close> (lines 39 to 47). Every \<open>yt.streams\<close> asks the
  library for the streams again, and each time the answer is a stream list or an
  exception: \<open>streams n\<close> is the answer to the access number \<open>n\<close>. An exception comes
  with the number of accesses made so far.
\<close>

definition attempts :: "(nat \<Rightarrow> exn + stream list) \<Rightarrow> (exn \<times> nat) + stream option" where
  "attempts streams =
     (case streams 0 of
        Inl e \<Rightarrow> Inl (e, 1)
      | Inr q1 \<Rightarrow>
          (case first (desc (order_by abr (filter only_audio q1))) of
             Some s \<Rightarrow> Inr (Some s)
           | None \<Rightarrow>
               (case streams 1 of
                  Inl e \<Rightarrow> Inl (e, 2)
                | Inr q2 \<Rightarrow>
                    (case first (filter only_audio q2) of
                       Some s \<Rightarrow> Inr (Some s)
                     | None \<Rightarrow>
                         (case streams 2 of
                            Inl e \<Rightarrow> Inl (e, 3)
                          | Inr q3 \<Rightarrow>
                              Inr (first (order_by resolution (filter is_progressive q3))))))))"

text \<open>
  The \<open>try\<close> with its \<open>except\<close> (lines 37 to 52): after an exception the error is printed
  and the first stream of a new access is taken. The result is the stream, or \<open>None\<close>,
  or the exception of that last access, with what was printed.
\<close>

definition choose_stream ::
    "(nat \<Rightarrow> exn + stream list) \<Rightarrow> (exn + stream option) \<times> ustring list" where
  "choose_stream streams =
     (case attempts streams of
        Inr chosen \<Rightarrow> (Inr chosen, [])
      | Inl (stream_error, n) \<Rightarrow>
          (case streams n of
             Inl e \<Rightarrow> Inl e
           | Inr q \<Rightarrow> Inr (first q),
           [ustr ''Stream selection error: '' @ str_of_exn stream_error]))"

text \<open>
  What lies outside the source: opening the video (\<open>YouTube(url)\<close>), the download of a
  stream into a directory (the path of the file it wrote), the file name with the suffix
  \<open>.wav\<close>, and the run of the transcoder.
\<close>

record platform =
  open_video :: "ustring \<Rightarrow> exn + (nat \<Rightarrow> exn + stream list)"
  download :: "stream \<Rightarrow> ustring \<Rightarrow> exn + ustring"
  with_suffix_wav :: "ustring \<Rightarrow> ustring"
  ffmpeg_run :: "ustring \<Rightarrow> ustring \<Rightarrow> exn + unit"

text \<open>The working directory: the paths of its files, and what has been printed.\<close>

record downloads =
  present :: "ustring set"
  printed :: "ustring list"

definition say :: "ustring \<Rightarrow> downloads \<Rightarrow> downloads" where
  "say line d = d\<lparr>printed := printed d @ [line]\<rparr>"

text \<open>The decimal digits of a number, for \<open>itag\<close> in the printed line.\<close>

fun digits :: "nat \<Rightarrow> ustring" where
  "digits n = (if n < 10 then [48 + n] else digits (n div 10) @ [48 + n mod 10])"

declare digits.simps [simp del]

text \<open>
  \<open>_convert_to_wav\<close>: a failure of the transcoder (\<open>ffmpeg.Error\<close>, the exception of
  \<open>ffmpeg_run\<close>) is printed and raised again.
\<close>

definition convert_to_wav ::
    "platform \<Rightarrow> ustring \<Rightarrow> ustring \<Rightarrow> downloads \<Rightarrow> (exn + unit) \<times> downloads" where
  "convert_to_wav pf input_path output_path d =
     (case ffmpeg_run pf input_path output_path of
        Inl e \<Rightarrow> (Inl e, say (ustr ''Error converting audio: '' @ str_of_exn e) d)
      | Inr u \<Rightarrow> (Inr (), d\<lparr>present := insert output_path (present d)\<rparr>))"

text \<open>The body of the outer \<open>try\<close> of \<open>download_audio\<close> (lines 28 to 70).\<close>

definition download_audio_body ::
    "platform \<Rightarrow> ustring \<Rightarrow> ustring \<Rightarrow> downloads \<Rightarrow> (exn + ustring) \<times> downloads" where
  "download_audio_body pf dir url d =
     (case open_video pf url of
        Inl e \<Rightarrow> (Inl e, d)
      | Inr streams \<Rightarrow>
          (case choose_stream streams of
             (Inl e, lines) \<Rightarrow> (Inl e, d\<lparr>printed := printed d @ lines\<rparr>)
           | (Inr None, lines) \<Rightarrow>
               (Inl (ValueError (ustr ''No suitable audio stream found'')),
                d\<lparr>printed := printed d @ lines\<rparr>)
           | (Inr (Some audio_stream), lines) \<Rightarrow>
               let d1 = say (ustr ''Downloading audio using stream: '' @ digits (itag audio_stream))
                          (d\<lparr>printed := printed d @ lines\<rparr>)
               in (case download pf audio_stream dir of
                     Inl e \<Rightarrow> (Inl e, d1)
                   | Inr downloaded_path \<Rightarrow>
                       let d2 = d1\<lparr>present := insert downloaded_path (present d1)\<rparr>;
                           wav_path = with_suffix_wav pf downloaded_path;
                           d3 = say (ustr ''Converting audio format...'') d2
                       in (case convert_to_wav pf downloaded_path wav_path d3 of
                             (Inl e, d4) \<Rightarrow> (Inl e, d4)
                           | (Inr u, d4) \<Rightarrow>
                               (Inr wav_path,
                                d4\<lparr>present := present d4 - {downloaded_path}\<rparr>)))))"

text \<open>
  \<open>download_audio\<close>: every exception of the body is caught, printed with hints, and
  turned into \<open>None\<close>.
\<close>

definition hints :: "exn \<Rightarrow> ustring list" where
  "hints e =
     [ustr ''Error downloading/converting video: '' @ str_of_exn e]
     @ (if contains (str_of_exn e) (ustr ''HTTP Error 400'')
        then [ustr ''This might be due to regional restrictions or age verification requirements.'']
        else if contains (str_of_exn e) (ustr ''HTTP Error 403'')
        then [ustr ''Access forbidden. This might be due to YouTube's security measures.'']
        else [])
     @ [newline @ ustr ''Troubleshooting steps:'',
        ustr ''1. Try updating pytube: pip install --upgrade pytube'',
        ustr ''2. Check if the video is available in your region'',
        ustr ''3. Check if the video requires age verification'',
        ustr ''4. Try using a different video URL'']"

definition download_audio ::
    "platform \<Rightarrow> ustring \<Rightarrow> ustring \<Rightarrow> downloads \<Rightarrow> ustring option \<times> downloads" where
  "download_audio pf dir url d =
     (case download_audio_body pf dir url d of
        (Inr wav_path, d1) \<Rightarrow> (Some wav_path, d1)
      | (Inl e, d1) \<Rightarrow> (None, d1\<lparr>printed := printed d1 @ hints e\<rparr>))"

section \<open>Concrete inputs\<close>

text \<open>A world with no file, no directory and no variable, before any request.\<close>

definition empty_world :: world where
  "empty_world = \<lparr>environ = Map.empty, files = Map.empty, dirs = {}, net_calls = 0, stdout = []\<rparr>"

text \<open>Services of which only the completion endpoint answers, with a given reply.\<close>

definition replying :: "ustring \<Rightarrow> services" where
  "replying content =
     \<lparr>list_transcripts = (\<lambda>video_id. Inl (LibraryError [])),
      fetch = (\<lambda>t. Inl (LibraryError [])),
      chat_completion = (\<lambda>text language. Inr content)\<rparr>"

text \<open>A reply with a preamble and no \<open>CATEGORY:\<close> section.\<close>

definition reply_without_category :: ustring where
  "reply_without_category =
     ustr ''Here is the analysis.'' @ newline @ newline
     @ ustr ''ABSTRACT:'' @ newline @ ustr ''A talk about proofs.'' @ newline @ newline
     @ ustr ''KEY CONCEPTS:'' @ newline @ bullet_space @ ustr ''logic'' @ newline
     @ bullet_space @ ustr ''types'' @ newline @ newline
     @ ustr ''SUMMARY:'' @ newline @ ustr ''It explains both.''"


definition reply_without_labels :: ustring where
  "reply_without_labels = ustr ''I cannot analyse this transcript.''"


text \<open>Track lists: one manually created Japanese track; a manually created German
  track beside a generated English one; one manually created English track.\<close>

definition japanese_manual_only :: transcript_list where
  "japanese_manual_only =
     \<lparr>manually_created = [ustr ''ja'' \<mapsto> \<lparr>language_code = ustr ''ja'', is_generated = False\<rparr>],
      generated = Map.empty\<rparr>"

definition german_manual_english_generated :: transcript_list where
  "german_manual_english_generated =
     \<lparr>manually_created = [ustr ''de'' \<mapsto> \<lparr>language_code = ustr ''de'', is_generated = False\<rparr>],
      generated = [ustr ''en'' \<mapsto> \<lparr>language_code = ustr ''en'', is_generated = True\<rparr>]\<rparr>"





definition video_only :: "stream list" where
  "video_only =
     [\<lparr>itag = 137, is_progressive = False, media_type = Video, abr = None, resolution = Some 1080\<rparr>]"


text \<open>A platform that always answers with a given stream set and never fails.\<close>

definition serving :: "stream list \<Rightarrow> platform" where
  "serving q =
     \<lparr>open_video = (\<lambda>url. Inr (\<lambda>n. Inr q)),
      download = (\<lambda>s dir. Inr (dir @ ustr ''/video.mp4'')),
      with_suffix_wav = (\<lambda>path. take (length path - 4) path @ ustr ''.wav''),
      ffmpeg_run = (\<lambda>input_path output_path. Inr ())\<rparr>"

definition empty_downloads :: downloads where
  "empty_downloads = \<lparr>present = {}, printed = []\<rparr>"

section \<open>Properties of \<open>get_video_id\<close>\<close>

lemma ustr_v_eq: "ustr ''v='' = [118, 61]"
  by (simp add: ustr_def)

lemma ustr_slash: "ustr ''/'' = [47]"
  by (simp add: ustr_def)

lemma id11_append:
  assumes "length X = 11" and "list_all id_char X"
  shows "id11 (X @ s) = Some X"
  using assms by (simp add: id11_def)

lemma id11_Some:
  assumes "id11 t = Some Y"
  shows "length Y = 11 \<and> list_all id_char Y \<and> (\<exists>b. t = Y @ b)"
proof -
  from assms have len: "11 \<le> length t" and ok: "list_all id_char (take 11 t)"
    and Y: "Y = take 11 t"
    by (auto simp: id11_def split: if_splits)
  have "t = Y @ drop 11 t" using Y by simp
  then have "\<exists>b. t = Y @ b" by (rule exI)
  moreover have "length Y = 11" using len Y by simp
  ultimately show ?thesis using ok Y by simp
qed

lemma pattern1_at_marker:
  assumes "m = ustr ''v='' \<or> m = ustr ''/''" and "length X = 11" and "list_all id_char X"
  shows "pattern1_at (m @ X @ s) = Some X"
  using assms by (auto simp: pattern1_at_def ustr_v_eq ustr_slash id11_append)

lemma pattern1_at_Some:
  assumes "pattern1_at t = Some Y"
  shows "\<exists>m b. t = m @ Y @ b \<and> (m = ustr ''v='' \<or> m = ustr ''/'') \<and>
           length Y = 11 \<and> list_all id_char Y"
proof (cases "prefix (ustr ''v='') t")
  case True
  then obtain r where t: "t = ustr ''v='' @ r" by (auto simp: prefix_def)
  with assms True have "id11 r = Some Y" by (simp add: pattern1_at_def ustr_v_eq)
  from id11_Some [OF this] t show ?thesis by auto
next
  case False
  with assms have pre: "prefix (ustr ''/'') t"
    by (auto simp: pattern1_at_def split: if_splits)
  then obtain r where t: "t = ustr ''/'' @ r" by (auto simp: prefix_def)
  with assms False pre have "id11 r = Some Y" by (simp add: pattern1_at_def ustr_slash)
  from id11_Some [OF this] t show ?thesis by auto
qed

lemma re_search_head:
  assumes "m t = Some g"
  shows "re_search m t = Some g"
  using assms by (cases t) simp_all


lemma re_search_Some_suffix:
  assumes "re_search m u = Some g"
  shows "\<exists>k\<le>length u. m (drop k u) = Some g"
  using assms
proof (induction u)
  case Nil
  then show ?case by simp
next
  case (Cons c u)
  show ?case
  proof (cases "m (c # u)")
    case (Some h)
    with Cons.prems have "m (drop 0 (c # u)) = Some g" by simp
    then show ?thesis by blast
  next
    case None
    with Cons.prems have "re_search m u = Some g" by simp
    with Cons.IH obtain k where "k \<le> length u" and "m (drop k u) = Some g" by blast
    then have "Suc k \<le> length (c # u) \<and> m (drop (Suc k) (c # u)) = Some g" by simp
    then show ?thesis by blast
  qed
qed

lemma re_search_exists:
  assumes "m t = Some g"
  shows "\<exists>h. re_search m (p @ t) = Some h"
proof (induction p)
  case Nil
  from assms have "re_search m t = Some g" by (rule re_search_head)
  then show ?case by simp
next
  case (Cons c p)
  then show ?case by (cases "m (c # p @ t)") auto
qed


lemma get_video_id_pattern1:
  assumes "re_search pattern1_at url = Some g"
  shows "get_video_id url = Inr g"
  using assms by (simp add: get_video_id_def patterns_def)

text \<open>
  C10. There are URLs outside the video platform for which \<open>get_video_id\<close> returns an
  eleven-character identifier instead of raising: \<open>https://example.com/abcdefghijk\<close>
  resolves to \<open>abcdefghijk\<close>, and every string that contains \<open>/\<close> or \<open>v=\<close> immediately
  followed by eleven characters of \<open>[0-9A-Za-z_-]\<close> matches the first pattern and so
  resolves to some eleven such characters.
\<close>

theorem get_video_id_accepts_any_host:
  "get_video_id (ustr ''https://example.com/abcdefghijk'') = Inr (ustr ''abcdefghijk'') \<and>
   (\<forall>p m X s. (m = ustr ''v='' \<or> m = ustr ''/'') \<and> length X = 11 \<and> list_all id_char X \<longrightarrow>
      (\<exists>v. re_search pattern1_at (p @ m @ X @ s) = Some v \<and>
           get_video_id (p @ m @ X @ s) = Inr v \<and> length v = 11 \<and> list_all id_char v))"
proof (intro conjI allI impI)
  show "get_video_id (ustr ''https://example.com/abcdefghijk'') = Inr (ustr ''abcdefghijk'')"
    by (simp add: get_video_id_def patterns_def ustr_def pattern1_at_def id11_def id_char_def)
next
  fix p m X s :: ustring
  assume h: "(m = ustr ''v='' \<or> m = ustr ''/'') \<and> length X = 11 \<and> list_all id_char X"
  then have "pattern1_at (m @ X @ s) = Some X" by (simp add: pattern1_at_marker)
  then have "\<exists>h. re_search pattern1_at (p @ m @ X @ s) = Some h"
    by (rule re_search_exists)
  then obtain v where v: "re_search pattern1_at (p @ m @ X @ s) = Some v" by blast
  from v have "\<exists>k\<le>length (p @ m @ X @ s). pattern1_at (drop k (p @ m @ X @ s)) = Some v"
    by (rule re_search_Some_suffix)
  then obtain k where "pattern1_at (drop k (p @ m @ X @ s)) = Some v" by blast
  from pattern1_at_Some [OF this] have "length v = 11 \<and> list_all id_char v" by blast
  with v get_video_id_pattern1 [OF v]
  show "\<exists>v. re_search pattern1_at (p @ m @ X @ s) = Some v \<and>
          get_video_id (p @ m @ X @ s) = Inr v \<and> length v = 11 \<and> list_all id_char v"
    by blast
qed

theorem get_video_id_accepts_any_host_witness:
  "\<exists>v. get_video_id (ustr ''ftp://nowhere.invalid/?v=AAAAAAAAAAA&x=1'') = Inr v \<and> length v = 11"
proof -
  have "list_all id_char (ustr ''AAAAAAAAAAA'')" by (simp add: ustr_def id_char_def)
  moreover have "length (ustr ''AAAAAAAAAAA'') = 11" by (simp add: ustr_def)
  ultimately have
    "\<exists>v. get_video_id (ustr ''ftp://nowhere.invalid/?'' @ ustr ''v='' @ ustr ''AAAAAAAAAAA'' @ ustr ''&x=1'')
        = Inr v \<and> length v = 11"
    using get_video_id_accepts_any_host by blast
  then show ?thesis by (simp add: ustr_def)
qed





section \<open>Properties of the string methods\<close>

lemma split_scan_not_Nil: "split_scan sep cur s \<noteq> []"
  by (induction sep cur s rule: split_scan.induct) auto

lemma join_Cons:
  assumes "ys \<noteq> []"
  shows "join sep (x # ys) = x @ sep @ join sep ys"
  using assms by (cases ys) simp_all

lemma split_scan_join:
  assumes "sep \<noteq> []"
  shows "join sep (split_scan sep cur s) = rev cur @ s"
  using assms
proof (induction sep cur s rule: split_scan.induct)
  case (1 sep cur)
  then show ?case by simp
next
  case (2 sep cur c cs)
  show ?case
  proof (cases "prefix sep (c # cs)")
    case True
    then have eq: "sep @ drop (length sep) (c # cs) = c # cs"
      by (metis append_eq_conv_conj prefix_def)
    from True 2 have "join sep (split_scan sep [] (drop (length sep) (c # cs)))
        = drop (length sep) (c # cs)" by simp
    with True "2.prems" eq show ?thesis
      by (simp add: join_Cons split_scan_not_Nil del: drop_Suc_Cons)
  next
    case False
    with 2 show ?thesis by simp
  qed
qed

lemma join_split_str:
  assumes "sep \<noteq> []"
  shows "join sep (split_str s sep) = s"
  using split_scan_join [OF assms, of "[]" s] by (simp add: split_str_def)

lemma split_scan_line:
  assumes "10 \<notin> set a"
  shows "split_scan newline cur (a @ newline @ rest) = (rev cur @ a) # split_scan newline [] rest"
  using assms by (induction a arbitrary: cur) (auto simp: newline_def)

lemma split_scan_last_line:
  assumes "10 \<notin> set a"
  shows "split_scan newline cur a = [rev cur @ a]"
  using assms by (induction a arbitrary: cur) (auto simp: newline_def)

lemma split_scan_lines:
  assumes "10 \<notin> set a" and "\<forall>l\<in>set ls. 10 \<notin> set l"
  shows "split_scan newline cur (a @ concat (map (\<lambda>l. newline @ l) ls)) = (rev cur @ a) # ls"
  using assms
proof (induction ls arbitrary: a cur)
  case Nil
  then show ?case by (simp add: split_scan_last_line)
next
  case (Cons l ls)
  have "split_scan newline cur (a @ concat (map (\<lambda>l. newline @ l) (l # ls)))
      = split_scan newline cur (a @ newline @ (l @ concat (map (\<lambda>l. newline @ l) ls)))"
    by simp
  also have "\<dots> = (rev cur @ a) # split_scan newline [] (l @ concat (map (\<lambda>l. newline @ l) ls))"
    using Cons.prems(1) by (rule split_scan_line)
  also have "split_scan newline [] (l @ concat (map (\<lambda>l. newline @ l) ls)) = (rev [] @ l) # ls"
    using Cons.prems(2) by (intro Cons.IH) simp_all
  finally show ?case by simp
qed

lemma split_str_lines:
  assumes "10 \<notin> set a" and "\<forall>l\<in>set ls. 10 \<notin> set l"
  shows "split_str (a @ concat (map (\<lambda>l. newline @ l) ls)) newline = a # ls"
  using split_scan_lines [OF assms, of "[]"] by (simp add: split_str_def)

lemma strip_where_core:
  assumes "\<forall>c\<in>set lead. P c" and "\<forall>c\<in>set trail. P c"
    and "t \<noteq> []" and "\<not> P (hd t)" and "\<not> P (last t)"
  shows "strip_where P (lead @ t @ trail) = t"
proof -
  from assms(3,4) have front: "dropWhile P (t @ trail) = t @ trail"
    by (cases t) simp_all
  from assms(1) have "dropWhile P (lead @ t @ trail) = dropWhile P (t @ trail)"
    by (intro dropWhile_append2) simp
  with front have one: "dropWhile P (lead @ t @ trail) = t @ trail" by simp
  from assms(3,5) have rear: "dropWhile P (rev t) = rev t"
    by (cases "rev t") (simp_all add: last_rev [symmetric] hd_rev)
  from assms(2) have "dropWhile P (rev trail @ rev t) = dropWhile P (rev t)"
    by (intro dropWhile_append2) simp
  with rear have "dropWhile P (rev (t @ trail)) = rev t" by simp
  with one show ?thesis by (simp add: strip_where_def)
qed

lemma strip_where_not_Nil:
  assumes "c \<in> set s" and "\<not> P c"
  shows "strip_where P s \<noteq> []"
proof -
  from assms have "dropWhile P s \<noteq> []" by (auto simp: dropWhile_eq_Nil_conv)
  then have "\<not> P (hd (dropWhile P s))" by (rule hd_dropWhile)
  moreover from \<open>dropWhile P s \<noteq> []\<close> have "hd (dropWhile P s) \<in> set (rev (dropWhile P s))"
    by simp
  ultimately have "dropWhile P (rev (dropWhile P s)) \<noteq> []"
    by (auto simp: dropWhile_eq_Nil_conv simp del: set_rev)
  then show ?thesis by (simp add: strip_where_def)
qed

section \<open>Properties of the parsing of the reply\<close>

lemma label_codes:
  "ustr ''ABSTRACT:'' = [65, 66, 83, 84, 82, 65, 67, 84, 58]"
  "ustr ''KEY CONCEPTS:'' = [75, 69, 89, 32, 67, 79, 78, 67, 69, 80, 84, 83, 58]"
  "ustr ''CATEGORY:'' = [67, 65, 84, 69, 71, 79, 82, 89, 58]"
  "ustr ''SUMMARY:'' = [83, 85, 77, 77, 65, 82, 89, 58]"
  by (simp_all add: ustr_def)

lemma startswith_hd:
  assumes "startswith s (c # p)"
  shows "s \<noteq> [] \<and> hd s = c"
  using assms by (auto simp: startswith_def prefix_def)

lemma labels_exclusive:
  "startswith s (ustr ''ABSTRACT:'') \<Longrightarrow> \<not> startswith s (ustr ''KEY CONCEPTS:'')"
  "startswith s (ustr ''ABSTRACT:'') \<Longrightarrow> \<not> startswith s (ustr ''CATEGORY:'')"
  "startswith s (ustr ''ABSTRACT:'') \<Longrightarrow> \<not> startswith s (ustr ''SUMMARY:'')"
  "startswith s (ustr ''KEY CONCEPTS:'') \<Longrightarrow> \<not> startswith s (ustr ''CATEGORY:'')"
  "startswith s (ustr ''KEY CONCEPTS:'') \<Longrightarrow> \<not> startswith s (ustr ''SUMMARY:'')"
  "startswith s (ustr ''CATEGORY:'') \<Longrightarrow> \<not> startswith s (ustr ''SUMMARY:'')"
  unfolding label_codes by (auto dest!: startswith_hd)

lemma parse_section_abstract:
  "abstract (parse_section d s) =
     (if startswith s (ustr ''ABSTRACT:'') then Some (strip (replace s (ustr ''ABSTRACT:'') []))
      else abstract d)"
  by (simp add: parse_section_def)

lemma parse_section_key_concepts:
  "key_concepts (parse_section d s) =
     (if startswith s (ustr ''KEY CONCEPTS:'') then Some (concepts_of s) else key_concepts d)"
  using labels_exclusive(1) [of s] by (auto simp: parse_section_def)

lemma parse_section_category:
  "category (parse_section d s) =
     (if startswith s (ustr ''CATEGORY:'') then Some (strip (replace s (ustr ''CATEGORY:'') []))
      else category d)"
  using labels_exclusive(2,4) [of s] by (auto simp: parse_section_def)

lemma parse_section_summary:
  "summary (parse_section d s) =
     (if startswith s (ustr ''SUMMARY:'') then Some (strip (replace s (ustr ''SUMMARY:'') []))
      else summary d)"
  using labels_exclusive(3,5,6) [of s] by (auto simp: parse_section_def)

lemma foldl_abstract:
  "abstract (foldl parse_section d secs) \<noteq> None \<longleftrightarrow>
     abstract d \<noteq> None \<or> (\<exists>s\<in>set secs. startswith s (ustr ''ABSTRACT:''))"
  by (induction secs arbitrary: d) (auto simp: parse_section_abstract)

lemma foldl_key_concepts:
  "key_concepts (foldl parse_section d secs) \<noteq> None \<longleftrightarrow>
     key_concepts d \<noteq> None \<or> (\<exists>s\<in>set secs. startswith s (ustr ''KEY CONCEPTS:''))"
  by (induction secs arbitrary: d) (auto simp: parse_section_key_concepts)

lemma foldl_category:
  "category (foldl parse_section d secs) \<noteq> None \<longleftrightarrow>
     category d \<noteq> None \<or> (\<exists>s\<in>set secs. startswith s (ustr ''CATEGORY:''))"
  by (induction secs arbitrary: d) (auto simp: parse_section_category)

lemma foldl_summary:
  "summary (foldl parse_section d secs) \<noteq> None \<longleftrightarrow>
     summary d \<noteq> None \<or> (\<exists>s\<in>set secs. startswith s (ustr ''SUMMARY:''))"
  by (induction secs arbitrary: d) (auto simp: parse_section_summary)

lemma parse_section_unlabelled:
  assumes "\<not> labelled s"
  shows "parse_section d s = d"
  using assms by (simp add: labelled_def parse_section_def)

lemma foldl_filter_labelled:
  "foldl parse_section d secs = foldl parse_section d (filter labelled secs)"
  by (induction secs arbitrary: d) (simp_all add: parse_section_unlabelled)

text \<open>The definitions that evaluate the parsing of a concrete reply.\<close>

lemmas parse_eval = split_str_def newline_def ustr_def bullet_space_def bullet_def
  parse_section_def startswith_def replace_def strip_def strip_where_def strip_chars_def
  concepts_of_def is_space_def labelled_def empty_dict_def

text \<open>
  C4. The reply is cut at every \<open>'\n\n'\<close> into sections (joining the sections with
  \<open>'\n\n'\<close> gives the reply back), each section is classified by the label it starts with,
  and a section that starts with none of the four labels leaves the record as it is:
  parsing never fails, and a key is in the record exactly when some section starts with
  its label. So a reply with no section that starts with \<open>CATEGORY:\<close> gives a record
  without category, whose other three keys are present when their sections are.
\<close>

theorem summarize_text_omits_unlabelled_sections:
  assumes "chat_completion sv text language = Inr content"
  shows "\<exists>d. fst (summarize_text sv text language w) = Some d \<and>
      join (newline @ newline) (split_str content (newline @ newline)) = content \<and>
      d = foldl parse_section empty_dict
            (filter labelled (split_str content (newline @ newline))) \<and>
      (abstract d \<noteq> None \<longleftrightarrow>
         (\<exists>s\<in>set (split_str content (newline @ newline)). startswith s (ustr ''ABSTRACT:''))) \<and>
      (key_concepts d \<noteq> None \<longleftrightarrow>
         (\<exists>s\<in>set (split_str content (newline @ newline)). startswith s (ustr ''KEY CONCEPTS:''))) \<and>
      (category d \<noteq> None \<longleftrightarrow>
         (\<exists>s\<in>set (split_str content (newline @ newline)). startswith s (ustr ''CATEGORY:''))) \<and>
      (summary d \<noteq> None \<longleftrightarrow>
         (\<exists>s\<in>set (split_str content (newline @ newline)). startswith s (ustr ''SUMMARY:'')))"
proof -
  let ?secs = "split_str content (newline @ newline)"
  let ?d = "parse_content content"
  have res: "fst (summarize_text sv text language w) = Some ?d"
    using assms by (simp add: summarize_text_def Let_def)
  have cut: "join (newline @ newline) ?secs = content"
    by (rule join_split_str) (simp add: newline_def)
  have omit: "?d = foldl parse_section empty_dict (filter labelled ?secs)"
    unfolding parse_content_def by (rule foldl_filter_labelled)
  have a: "abstract ?d \<noteq> None \<longleftrightarrow> (\<exists>s\<in>set ?secs. startswith s (ustr ''ABSTRACT:''))"
    unfolding parse_content_def foldl_abstract by (simp add: empty_dict_def)
  have k: "key_concepts ?d \<noteq> None \<longleftrightarrow> (\<exists>s\<in>set ?secs. startswith s (ustr ''KEY CONCEPTS:''))"
    unfolding parse_content_def foldl_key_concepts by (simp add: empty_dict_def)
  have c: "category ?d \<noteq> None \<longleftrightarrow> (\<exists>s\<in>set ?secs. startswith s (ustr ''CATEGORY:''))"
    unfolding parse_content_def foldl_category by (simp add: empty_dict_def)
  have s: "summary ?d \<noteq> None \<longleftrightarrow> (\<exists>s\<in>set ?secs. startswith s (ustr ''SUMMARY:''))"
    unfolding parse_content_def foldl_summary by (simp add: empty_dict_def)
  from res cut omit a k c s show ?thesis by blast
qed

theorem summarize_text_omits_unlabelled_sections_witness:
  "fst (summarize_text (replying reply_without_category) [] (ustr ''en'') empty_world) =
     Some \<lparr>abstract = Some (ustr ''A talk about proofs.''),
           key_concepts = Some [ustr ''logic'', ustr ''types''],
           category = None,
           summary = Some (ustr ''It explains both.'')\<rparr>"
proof -
  have "chat_completion (replying reply_without_category) [] (ustr ''en'')
      = Inr reply_without_category"
    by (simp add: replying_def)
  from summarize_text_omits_unlabelled_sections [OF this, of empty_world]
  obtain d where
    "fst (summarize_text (replying reply_without_category) [] (ustr ''en'') empty_world) = Some d"
    and "d = foldl parse_section empty_dict
           (filter labelled (split_str reply_without_category (newline @ newline)))"
    by blast
  moreover have "foldl parse_section empty_dict
      (filter labelled (split_str reply_without_category (newline @ newline)))
    = \<lparr>abstract = Some (ustr ''A talk about proofs.''),
       key_concepts = Some [ustr ''logic'', ustr ''types''],
       category = None,
       summary = Some (ustr ''It explains both.'')\<rparr>"
    by (simp add: reply_without_category_def parse_eval)
  ultimately show ?thesis by simp
qed

text \<open>
  C8, as amended. In a key-concepts section made of a label line and further lines,
  every line after the label line that is not made of whitespace only gives exactly one
  bullet, in order, and the other lines give none. The bullet is the line without the
  bullet characters and spaces at both of its ends, and then without the whitespace at
  both ends: for a line made of a text between two runs of bullet characters and
  spaces, where the text neither starts nor ends with a bullet character or
  whitespace, the bullet is that text, unchanged.
\<close>

theorem concepts_of_lines:
  assumes "10 \<notin> set label_line" and "\<forall>l\<in>set ls. 10 \<notin> set l"
  shows "concepts_of (label_line @ concat (map (\<lambda>l. newline @ l) ls)) =
           map (\<lambda>l. strip (strip_chars l bullet_space)) (filter (\<lambda>l. strip l \<noteq> []) ls) \<and>
         (\<forall>lead t trail.
            set lead \<subseteq> {bullet, 32} \<and> set trail \<subseteq> {bullet, 32} \<and> t \<noteq> [] \<and>
            hd t \<noteq> bullet \<and> \<not> is_space (hd t) \<and> last t \<noteq> bullet \<and> \<not> is_space (last t) \<longrightarrow>
            strip (lead @ t @ trail) \<noteq> [] \<and>
            strip (strip_chars (lead @ t @ trail) bullet_space) = t)"
proof (intro conjI allI impI)
  show "concepts_of (label_line @ concat (map (\<lambda>l. newline @ l) ls)) =
          map (\<lambda>l. strip (strip_chars l bullet_space)) (filter (\<lambda>l. strip l \<noteq> []) ls)"
    by (simp add: concepts_of_def split_str_lines [OF assms])
next
  fix lead t trail :: ustring
  assume h: "set lead \<subseteq> {bullet, 32} \<and> set trail \<subseteq> {bullet, 32} \<and> t \<noteq> [] \<and>
            hd t \<noteq> bullet \<and> \<not> is_space (hd t) \<and> last t \<noteq> bullet \<and> \<not> is_space (last t)"
  then have "hd t \<in> set (lead @ t @ trail)" by simp
  with h show "strip (lead @ t @ trail) \<noteq> []"
    unfolding strip_def by (intro strip_where_not_Nil [of "hd t"]) simp_all
next
  fix lead t trail :: ustring
  assume h: "set lead \<subseteq> {bullet, 32} \<and> set trail \<subseteq> {bullet, 32} \<and> t \<noteq> [] \<and>
            hd t \<noteq> bullet \<and> \<not> is_space (hd t) \<and> last t \<noteq> bullet \<and> \<not> is_space (last t)"
  have sp: "is_space 32" by (simp add: is_space_def)
  from h sp have "hd t \<noteq> 32" and "last t \<noteq> 32" by auto
  with h have "strip_chars (lead @ t @ trail) bullet_space = t"
    unfolding strip_chars_def bullet_space_def
    by (intro strip_where_core) auto
  moreover from h have "strip_where is_space ([] @ t @ []) = t"
    by (intro strip_where_core) simp_all
  ultimately show "strip (strip_chars (lead @ t @ trail) bullet_space) = t"
    by (simp add: strip_def)
qed

theorem concepts_of_lines_witness:
  "10 \<notin> set (ustr ''KEY CONCEPTS:'') \<and>
   concepts_of (ustr ''KEY CONCEPTS:'' @ newline @ bullet_space @ ustr ''logic'' @ newline
      @ ustr ''  '' @ newline @ bullet_space @ ustr ''types '' @ [bullet])
     = [ustr ''logic'', ustr ''types'']"
proof -
  let ?ls = "[bullet_space @ ustr ''logic'', ustr ''  '', bullet_space @ ustr ''types '' @ [bullet]]"
  have a: "10 \<notin> set (ustr ''KEY CONCEPTS:'')" by (simp add: ustr_def)
  have b: "\<forall>l\<in>set ?ls. 10 \<notin> set l" by (simp add: ustr_def bullet_space_def bullet_def)
  from concepts_of_lines [OF a b]
  have "concepts_of (ustr ''KEY CONCEPTS:'' @ concat (map (\<lambda>l. newline @ l) ?ls)) =
          map (\<lambda>l. strip (strip_chars l bullet_space)) (filter (\<lambda>l. strip l \<noteq> []) ?ls)"
    by blast
  also have "\<dots> = [ustr ''logic'', ustr ''types'']"
    by (simp add: parse_eval)
  finally show ?thesis using a by simp
qed

text \<open>
  The claim as it is written fails: bullet characters and spaces at the end of a line
  are removed as well, so the text after the leading marker is not kept as it is.
\<close>

theorem concepts_of_trailing_marker_counterexample:
  "concepts_of (ustr ''KEY CONCEPTS:'' @ newline @ bullet_space @ ustr ''C '' @ [bullet]
       @ ustr '' D '' @ [bullet])
     = [ustr ''C '' @ [bullet] @ ustr '' D''] \<and>
   concepts_of (ustr ''KEY CONCEPTS:'' @ newline @ bullet_space @ ustr ''C '' @ [bullet]
       @ ustr '' D '' @ [bullet])
     \<noteq> [ustr ''C '' @ [bullet] @ ustr '' D '' @ [bullet]]"
  by (simp add: parse_eval)

section \<open>Properties of the analysis file\<close>

lemma files_print [simp]: "files (print line w) = files w"
  by (simp add: print_def)

lemma files_foldl_print [simp]:
  "files (foldl (\<lambda>v c. print (f c) v) w cs) = files w"
  by (induction cs arbitrary: w) simp_all

lemma files_print_results [simp]: "files (print_results d w) = files w"
  by (simp add: print_results_def)

lemma files_summarize_text [simp]: "files (snd (summarize_text sv text language w)) = files w"
  by (simp add: summarize_text_def Let_def split: sum.splits option.splits)

lemma dirs_print [simp]: "dirs (print line w) = dirs w"
  by (simp add: print_def)

lemma dirs_summarize_text [simp]: "dirs (snd (summarize_text sv text language w)) = dirs w"
  by (simp add: summarize_text_def Let_def split: sum.splits option.splits)





text \<open>
  When the reply has no labelled section the record is the empty dictionary, which
  \<open>if summary_data:\<close> takes for a failure: nothing is written.
\<close>

lemma process_transcript_empty_record:
  assumes "chat_completion sv transcript language = Inr content"
    and "parse_content content = empty_dict"
  shows "files (process_transcript sv (transcript, language) summary_path w) = files w \<and>
         last (stdout (process_transcript sv (transcript, language) summary_path w))
           = ustr ''Failed to generate summary.''"
  using assms
  by (simp add: process_transcript_def summarize_text_def Let_def print_def)

lemma process_transcript_no_labels:
  "files (process_transcript (replying reply_without_labels) ([], ustr ''en'')
            (ustr ''out/analysis.txt'') empty_world) (ustr ''out/analysis.txt'') = None"
proof -
  have a: "chat_completion (replying reply_without_labels) [] (ustr ''en'')
      = Inr reply_without_labels"
    by (simp add: replying_def)
  have b: "parse_content reply_without_labels = empty_dict"
    by (simp add: parse_content_def reply_without_labels_def parse_eval)
  from process_transcript_empty_record [OF a b] show ?thesis
    by (simp add: empty_world_def)
qed

section \<open>Properties of the construction of the client\<close>




section \<open>Properties of the choice of the caption track\<close>

text \<open>
  The two lookups that the source calls without their argument raise, so the choice is
  always the one of the third call.
\<close>

lemma select_transcript_third_tier:
  "select_transcript tracks =
     find_in_dicts language_preference [manually_created tracks, generated tracks]"
  by (simp add: select_transcript_def find_manually_created_transcript_def
      find_generated_transcript_def find_transcript_def)

text \<open>
  Had the first two calls been given language codes, the nested \<open>try\<close> blocks would
  take the first lookup that succeeds, in the order manual, generated, any.
\<close>

lemma nested_try_order:
  "(case a of Inr t \<Rightarrow> Inr t | Inl e1 \<Rightarrow> (case b of Inr t \<Rightarrow> Inr t | Inl e2 \<Rightarrow> c)) =
     (if isl a then (if isl b then c else b) else a)"
  for a b c :: "exn + track"
  by (cases a; cases b) simp_all

text \<open>
  C2 at its failing inputs. A video whose only track is a manually created Japanese one:
  no track is selected. A video with a manually created German track and a generated
  English one: the generated track is selected.
\<close>

theorem select_transcript_ignores_manual_track:
  "manually_created japanese_manual_only (ustr ''ja'') \<noteq> None \<and>
   select_transcript japanese_manual_only = Inl (NoTranscriptFound (ustr ''No transcripts were found'')) \<and>
   manually_created german_manual_english_generated (ustr ''de'') \<noteq> None \<and>
   select_transcript german_manual_english_generated =
     Inr \<lparr>language_code = ustr ''en'', is_generated = True\<rparr>"
  by (simp add: select_transcript_third_tier language_preference_def japanese_manual_only_def
      german_manual_english_generated_def ustr_def)

section \<open>Properties of the caption pipeline\<close>






section \<open>Properties of the choice of the stream\<close>

lemma first_Nil_iff: "first q = None \<longleftrightarrow> q = []"
  by (cases q) (simp_all add: first_def)

lemma first_hd:
  assumes "q \<noteq> []"
  shows "first q = Some (hd q)"
  using assms by (cases q) (simp_all add: first_def)

lemma first_filter_find: "first (filter P q) = List.find P q"
  by (induction q) (simp_all add: first_def)

lemma order_by_Nil_iff: "order_by f q = [] \<longleftrightarrow> \<not> (\<exists>s\<in>set q. f s \<noteq> None)"
proof -
  have "order_by f q = [] \<longleftrightarrow> length (order_by f q) = 0" by simp
  also have "\<dots> \<longleftrightarrow> filter (\<lambda>s. f s \<noteq> None) q = []" by (simp add: order_by_def)
  also have "\<dots> \<longleftrightarrow> \<not> (\<exists>s\<in>set q. f s \<noteq> None)" by (auto simp: filter_empty_conv)
  finally show ?thesis .
qed

lemma set_order_by: "set (order_by f q) = {s \<in> set q. f s \<noteq> None}"
  by (auto simp: order_by_def)

lemma sorted_order_by: "sorted (map (\<lambda>s. the (f s)) (order_by f q))"
  by (simp add: order_by_def)

lemma sorted_map_last:
  assumes "sorted (map k ys)" and "y \<in> set ys"
  shows "k y \<le> k (last ys)"
  using assms
proof (induction ys)
  case Nil
  then show ?case by simp
next
  case (Cons a ys)
  then show ?case by (cases "ys = []") auto
qed

lemma sorted_map_hd:
  assumes "sorted (map k ys)" and "y \<in> set ys"
  shows "k (hd ys) \<le> k y"
  using assms by (cases ys) auto

text \<open>The stream with the highest bit rate among the audio-only ones that have one.\<close>

lemma highest_abr:
  assumes "a \<in> set q" and "only_audio a" and "abr a \<noteq> None"
  shows "\<exists>s. first (desc (order_by abr (filter only_audio q))) = Some s \<and>
           s \<in> set q \<and> only_audio s \<and> abr s \<noteq> None \<and>
           (\<forall>t\<in>set q. only_audio t \<longrightarrow> (\<forall>b. abr t = Some b \<longrightarrow> b \<le> the (abr s)))"
proof -
  let ?o = "order_by abr (filter only_audio q)"
  from assms have ne: "?o \<noteq> []" by (auto simp: order_by_Nil_iff)
  then have f: "first (desc ?o) = Some (last ?o)"
    by (simp add: desc_def first_hd hd_rev)
  from ne have "last ?o \<in> set ?o" by simp
  then have m: "last ?o \<in> set q" "only_audio (last ?o)" "abr (last ?o) \<noteq> None"
    by (auto simp: set_order_by)
  have "\<forall>t\<in>set q. only_audio t \<longrightarrow> (\<forall>b. abr t = Some b \<longrightarrow> b \<le> the (abr (last ?o)))"
  proof (intro ballI impI allI)
    fix t b assume "t \<in> set q" and "only_audio t" and b: "abr t = Some b"
    then have "t \<in> set ?o" by (simp add: set_order_by)
    with sorted_order_by [of abr "filter only_audio q"]
    have "the (abr t) \<le> the (abr (last ?o))" by (rule sorted_map_last)
    with b show "b \<le> the (abr (last ?o))" by simp
  qed
  with f m show ?thesis by blast
qed

text \<open>The stream with the lowest resolution among the progressive ones that have one.\<close>

lemma lowest_resolution:
  assumes "a \<in> set q" and "is_progressive a" and "resolution a \<noteq> None"
  shows "\<exists>s. first (order_by resolution (filter is_progressive q)) = Some s \<and>
           s \<in> set q \<and> is_progressive s \<and> resolution s \<noteq> None \<and>
           (\<forall>t\<in>set q. is_progressive t \<longrightarrow> (\<forall>r. resolution t = Some r \<longrightarrow> the (resolution s) \<le> r))"
proof -
  let ?o = "order_by resolution (filter is_progressive q)"
  from assms have ne: "?o \<noteq> []" by (auto simp: order_by_Nil_iff)
  then have f: "first ?o = Some (hd ?o)" by (rule first_hd)
  from ne have "hd ?o \<in> set ?o" by simp
  then have m: "hd ?o \<in> set q" "is_progressive (hd ?o)" "resolution (hd ?o) \<noteq> None"
    by (auto simp: set_order_by)
  have "\<forall>t\<in>set q. is_progressive t \<longrightarrow>
          (\<forall>r. resolution t = Some r \<longrightarrow> the (resolution (hd ?o)) \<le> r)"
  proof (intro ballI impI allI)
    fix t r assume "t \<in> set q" and "is_progressive t" and r: "resolution t = Some r"
    then have "t \<in> set ?o" by (simp add: set_order_by)
    with sorted_order_by [of resolution "filter is_progressive q"]
    have "the (resolution (hd ?o)) \<le> the (resolution t)" by (rule sorted_map_hd)
    with r show "the (resolution (hd ?o)) \<le> r" by simp
  qed
  with f m show ?thesis by blast
qed

lemma no_abr_first:
  assumes "\<not> (\<exists>a\<in>set q. only_audio a \<and> abr a \<noteq> None)"
  shows "first (desc (order_by abr (filter only_audio q))) = None"
proof -
  from assms have "order_by abr (filter only_audio q) = []"
    by (auto simp: order_by_Nil_iff)
  then show ?thesis by (simp add: desc_def first_def)
qed

lemma no_audio_first:
  assumes "\<not> (\<exists>a\<in>set q. only_audio a)"
  shows "first (filter only_audio q) = None"
  using assms by (auto simp: first_Nil_iff filter_empty_conv)

lemma no_resolution_first:
  assumes "\<not> (\<exists>a\<in>set q. is_progressive a \<and> resolution a \<noteq> None)"
  shows "first (order_by resolution (filter is_progressive q)) = None"
  using assms by (auto simp: first_Nil_iff order_by_Nil_iff)


lemma attempts_constant:
  "attempts (\<lambda>n. Inr q) =
     (case first (desc (order_by abr (filter only_audio q))) of
        Some s \<Rightarrow> Inr (Some s)
      | None \<Rightarrow>
          (case first (filter only_audio q) of
             Some s \<Rightarrow> Inr (Some s)
           | None \<Rightarrow> Inr (first (order_by resolution (filter is_progressive q)))))"
  by (simp add: attempts_def split: option.splits)

lemma choose_stream_attempts:
  assumes "attempts streams = Inr chosen"
  shows "fst (choose_stream streams) = Inr chosen"
  using assms by (simp add: choose_stream_def)

lemma choose_first_tier:
  assumes "a \<in> set q" and "only_audio a" and "abr a \<noteq> None"
  shows "\<exists>s. fst (choose_stream (\<lambda>n. Inr q)) = Inr (Some s) \<and>
           s \<in> set q \<and> only_audio s \<and> abr s \<noteq> None \<and>
           (\<forall>t\<in>set q. only_audio t \<longrightarrow> (\<forall>b. abr t = Some b \<longrightarrow> b \<le> the (abr s)))"
proof -
  from highest_abr [OF assms] obtain s where
    f: "first (desc (order_by abr (filter only_audio q))) = Some s"
    and p: "s \<in> set q \<and> only_audio s \<and> abr s \<noteq> None \<and>
           (\<forall>t\<in>set q. only_audio t \<longrightarrow> (\<forall>b. abr t = Some b \<longrightarrow> b \<le> the (abr s)))"
    by blast
  from f have "attempts (\<lambda>n. Inr q) = Inr (Some s)" by (simp add: attempts_constant)
  then have "fst (choose_stream (\<lambda>n. Inr q)) = Inr (Some s)" by (rule choose_stream_attempts)
  with p show ?thesis by blast
qed

lemma choose_second_tier:
  assumes "\<not> (\<exists>a\<in>set q. only_audio a \<and> abr a \<noteq> None)" and "a \<in> set q" and "only_audio a"
  shows "fst (choose_stream (\<lambda>n. Inr q)) = Inr (List.find only_audio q) \<and>
         List.find only_audio q \<noteq> None"
proof -
  from assms(2,3) have ex: "List.find only_audio q \<noteq> None"
    by (auto simp: find_None_iff)
  then obtain s where s: "List.find only_audio q = Some s" by blast
  with no_abr_first [OF assms(1)] have "attempts (\<lambda>n. Inr q) = Inr (Some s)"
    by (simp add: attempts_constant first_filter_find)
  then have "fst (choose_stream (\<lambda>n. Inr q)) = Inr (Some s)" by (rule choose_stream_attempts)
  with s ex show ?thesis by simp
qed

lemma choose_third_tier:
  assumes "\<not> (\<exists>a\<in>set q. only_audio a)"
    and "a \<in> set q" and "is_progressive a" and "resolution a \<noteq> None"
  shows "\<exists>s. fst (choose_stream (\<lambda>n. Inr q)) = Inr (Some s) \<and>
           s \<in> set q \<and> is_progressive s \<and> resolution s \<noteq> None \<and>
           (\<forall>t\<in>set q. is_progressive t \<longrightarrow>
              (\<forall>r. resolution t = Some r \<longrightarrow> the (resolution s) \<le> r))"
proof -
  from assms(1) have n1: "\<not> (\<exists>a\<in>set q. only_audio a \<and> abr a \<noteq> None)" by blast
  from lowest_resolution [OF assms(2-4)] obtain s where
    f: "first (order_by resolution (filter is_progressive q)) = Some s"
    and p: "s \<in> set q \<and> is_progressive s \<and> resolution s \<noteq> None \<and>
           (\<forall>t\<in>set q. is_progressive t \<longrightarrow>
              (\<forall>r. resolution t = Some r \<longrightarrow> the (resolution s) \<le> r))"
    by blast
  from f no_abr_first [OF n1] no_audio_first [OF assms(1)]
  have "attempts (\<lambda>n. Inr q) = Inr (Some s)" by (simp add: attempts_constant)
  then have "fst (choose_stream (\<lambda>n. Inr q)) = Inr (Some s)" by (rule choose_stream_attempts)
  with p show ?thesis by blast
qed

lemma choose_none_iff:
  "fst (choose_stream (\<lambda>n. Inr q)) = Inr None \<longleftrightarrow>
     \<not> (\<exists>a\<in>set q. only_audio a) \<and> \<not> (\<exists>a\<in>set q. is_progressive a \<and> resolution a \<noteq> None)"
proof
  assume h: "fst (choose_stream (\<lambda>n. Inr q)) = Inr None"
  show "\<not> (\<exists>a\<in>set q. only_audio a) \<and> \<not> (\<exists>a\<in>set q. is_progressive a \<and> resolution a \<noteq> None)"
  proof (intro conjI notI)
    assume "\<exists>a\<in>set q. only_audio a"
    then obtain a where a: "a \<in> set q" "only_audio a" by blast
    show False
    proof (cases "\<exists>a\<in>set q. only_audio a \<and> abr a \<noteq> None")
      case True
      then obtain b where "b \<in> set q" "only_audio b" "abr b \<noteq> None" by blast
      from choose_first_tier [OF this] h show False by auto
    next
      case False
      from choose_second_tier [OF False a] h show False by auto
    qed
  next
    assume "\<exists>a\<in>set q. is_progressive a \<and> resolution a \<noteq> None"
    then obtain a where a: "a \<in> set q" "is_progressive a" "resolution a \<noteq> None" by blast
    show False
    proof (cases "\<exists>a\<in>set q. only_audio a")
      case True
      then obtain c where c: "c \<in> set q" "only_audio c" by blast
      show False
      proof (cases "\<exists>a\<in>set q. only_audio a \<and> abr a \<noteq> None")
        case True
        then obtain b where "b \<in> set q" "only_audio b" "abr b \<noteq> None" by blast
        from choose_first_tier [OF this] h show False by auto
      next
        case False
        from choose_second_tier [OF False c] h show False by auto
      qed
    next
      case False
      from choose_third_tier [OF False a] h show False by auto
    qed
  qed
next
  assume h: "\<not> (\<exists>a\<in>set q. only_audio a) \<and>
             \<not> (\<exists>a\<in>set q. is_progressive a \<and> resolution a \<noteq> None)"
  then have n1: "\<not> (\<exists>a\<in>set q. only_audio a \<and> abr a \<noteq> None)" by blast
  from h have n2: "\<not> (\<exists>a\<in>set q. only_audio a)"
    and n3: "\<not> (\<exists>a\<in>set q. is_progressive a \<and> resolution a \<noteq> None)" by blast+
  have "attempts (\<lambda>n. Inr q) = Inr None"
    by (simp add: attempts_constant no_abr_first [OF n1] no_audio_first [OF n2]
        no_resolution_first [OF n3])
  then show "fst (choose_stream (\<lambda>n. Inr q)) = Inr None" by (rule choose_stream_attempts)
qed





lemmas stream_eval = choose_stream_def attempts_def first_def desc_def order_by_def
  only_audio_def includes_audio_track_def includes_video_track_def


text \<open>
  C9. When \<open>download_audio\<close> has opened the video and no stream is returned by any of
  its attempts, it raises the \<open>ValueError\<close> \<open>No suitable audio stream found\<close> (the
  \<open>NoStreamAvailableError\<close> of the specification) in its body; the error is caught at the
  top of \<open>download_audio\<close>, which prints it and returns \<open>None\<close>, and nothing is downloaded.
  For a stream set this is the case exactly when the set has no audio-only stream and no
  progressive stream with a resolution.
\<close>

theorem download_audio_no_stream:
  assumes "open_video pf url = Inr streams"
    and "fst (choose_stream streams) = Inr None"
  shows "fst (download_audio_body pf dir url d) =
           Inl (ValueError (ustr ''No suitable audio stream found'')) \<and>
         fst (download_audio pf dir url d) = None \<and>
         present (snd (download_audio pf dir url d)) = present d \<and>
         ustr ''Error downloading/converting video: '' @ ustr ''No suitable audio stream found''
           \<in> set (printed (snd (download_audio pf dir url d))) \<and>
         (\<forall>q. fst (choose_stream (\<lambda>n. Inr q)) = Inr None \<longleftrightarrow>
            \<not> (\<exists>a\<in>set q. only_audio a) \<and>
            \<not> (\<exists>a\<in>set q. is_progressive a \<and> resolution a \<noteq> None))"
proof -
  from assms(2) obtain lines where c: "choose_stream streams = (Inr None, lines)"
    by (cases "choose_stream streams") simp
  have body: "download_audio_body pf dir url d =
      (Inl (ValueError (ustr ''No suitable audio stream found'')),
       d\<lparr>printed := printed d @ lines\<rparr>)"
    by (simp add: download_audio_body_def assms(1) c)
  then have one: "fst (download_audio_body pf dir url d) =
           Inl (ValueError (ustr ''No suitable audio stream found''))" by simp
  from body have two: "fst (download_audio pf dir url d) = None"
    by (simp add: download_audio_def)
  from body have three: "present (snd (download_audio pf dir url d)) = present d"
    by (simp add: download_audio_def)
  from body have four:
    "ustr ''Error downloading/converting video: '' @ ustr ''No suitable audio stream found''
       \<in> set (printed (snd (download_audio pf dir url d)))"
    by (simp add: download_audio_def hints_def)
  from one two three four choose_none_iff show ?thesis by blast
qed

theorem download_audio_no_stream_witness:
  "fst (choose_stream (\<lambda>n. Inr video_only)) = Inr None \<and>
   fst (download_audio (serving video_only) (ustr ''downloads'')
          (ustr ''https://youtu.be/dQw4w9WgXcQ'') empty_downloads) = None \<and>
   fst (download_audio_body (serving video_only) (ustr ''downloads'')
          (ustr ''https://youtu.be/dQw4w9WgXcQ'') empty_downloads) =
     Inl (ValueError (ustr ''No suitable audio stream found''))"
proof -
  have a: "open_video (serving video_only) (ustr ''https://youtu.be/dQw4w9WgXcQ'')
      = Inr (\<lambda>n. Inr video_only)"
    by (simp add: serving_def)
  have b: "fst (choose_stream (\<lambda>n. Inr video_only)) = Inr None"
    by (simp add: stream_eval video_only_def)
  from download_audio_no_stream [OF a b, of "ustr ''downloads''" empty_downloads] b
  show ?thesis by blast
qed


end
